theory Spec2Isabelle
  imports Complex_Main "HOL-Library.Log_Nat" "HOL-Library.Char_ord" "HOL-Library.List_Lexorder"
begin

section \<open>C strings and the string functions of the C library\<close>

text \<open>
  A C string is modelled by the list of its characters before the terminating NUL.
  Characters are bytes; \<open>of_char\<close> reads one as an unsigned char.
\<close>

definition MAX_VESSELS :: nat where
  "MAX_VESSELS = 120"

definition MAX_VESSEL_NAME_LEN :: nat where
  "MAX_VESSEL_NAME_LEN = 128"

text \<open>\<open>tolower\<close> in the C locale: only the letters A to Z change.\<close>

definition tolower :: "char \<Rightarrow> int" where
  "tolower c = (let n = of_char c in if 65 \<le> n \<and> n \<le> 90 then n + 32 else n)"

text \<open>
  \<open>strcasecmp\<close> compares the lower-cased bytes and returns the difference at the first
  position where they differ; the end of a string counts as the byte 0.
\<close>

fun strcasecmp :: "string \<Rightarrow> string \<Rightarrow> int" where
  "strcasecmp [] [] = 0"
| "strcasecmp [] (y # ys) = - tolower y"
| "strcasecmp (x # xs) [] = tolower x"
| "strcasecmp (x # xs) (y # ys) =
     (if tolower x = tolower y then strcasecmp xs ys
      else tolower x - tolower y)"

text \<open>
  \<open>strncpy (dst, src, n)\<close> followed by \<open>dst[n] = 0\<close>: the characters of the source up to
  its terminator, at most \<open>n\<close> of them.
\<close>

definition strncpy :: "string \<Rightarrow> nat \<Rightarrow> string" where
  "strncpy src n = take n (takeWhile (\<lambda>c. c \<noteq> CHR 0x00) src)"

text \<open>
  \<open>buf[strcspn (buf, "\n")] = 0\<close> on the bytes that \<open>fgets\<close> stored: the C string in the
  buffer ends at the first newline, or at the first NUL byte if the input had one.
\<close>

definition strip_newline :: "string \<Rightarrow> string" where
  "strip_newline buf = takeWhile (\<lambda>c. c \<noteq> CHR 0x0A \<and> c \<noteq> CHR 0x00) buf"




text \<open>
  \<open>strtok_r (s, ",", &s)\<close>: leading commas are skipped; if nothing is left the result
  is NULL (\<open>None\<close>); otherwise the token runs up to the next comma, and the scan resumes
  behind that comma (or at the end of the string).  The result is the token and the rest.
\<close>

definition strtok_r :: "string \<Rightarrow> (string \<times> string) option" where
  "strtok_r s =
     (let s1 = dropWhile (\<lambda>c. c = CHR '','') s
      in if s1 = [] then None
         else Some (takeWhile (\<lambda>c. c \<noteq> CHR '','') s1,
                    drop 1 (dropWhile (\<lambda>c. c \<noteq> CHR '','') s1)))"


section \<open>Floating-point numbers\<close>

text \<open>
  The values of the C types \<open>float\<close> and \<open>double\<close> (IEEE 754 binary32 and binary64).
  \<open>Fin x\<close> is the finite value that denotes the real number \<open>x\<close>, \<open>Fin 0\<close> being the
  positive zero; \<open>NegZero\<close> is the negative zero; \<open>NaN s\<close> is a NaN with sign bit \<open>s\<close>
  (its payload is not tracked).  Every arithmetic operation computes the exact result
  and rounds it to the nearest value of the format, ties to the even significand: the
  program never changes the rounding mode.
\<close>

datatype cfloat = Fin real | NegZero | PInf | NInf | NaN bool

text \<open>The sign bit, whether the value is a zero or an infinity, and the number denoted.\<close>

fun fsign :: "cfloat \<Rightarrow> bool" where
  "fsign (Fin x) = (x < 0)"
| "fsign NegZero = True"
| "fsign PInf = False"
| "fsign NInf = True"
| "fsign (NaN s) = s"

fun fzero :: "cfloat \<Rightarrow> bool" where
  "fzero (Fin x) = (x = 0)"
| "fzero NegZero = True"
| "fzero _ = False"

fun finf :: "cfloat \<Rightarrow> bool" where
  "finf PInf = True"
| "finf NInf = True"
| "finf _ = False"

fun fval :: "cfloat \<Rightarrow> real" where
  "fval (Fin x) = x"
| "fval _ = 0"


definition pow2 :: "int \<Rightarrow> real" where
  "pow2 e = (if 0 \<le> e then 2 ^ nat e else 1 / 2 ^ nat (- e))"

text \<open>\<open>ilog2 x\<close> is the exponent of the binade of a positive \<open>x\<close>: \<open>2^k \<le> x < 2^(k+1)\<close>.\<close>

definition ilog2 :: "real \<Rightarrow> int" where
  "ilog2 x = (if 1 \<le> x then bitlen \<lfloor>x\<rfloor> - 1 else - bitlen (\<lceil>1 / x\<rceil> - 1))"

text \<open>Rounding to the nearest integer, a tie to the even one.\<close>

definition rne :: "real \<Rightarrow> int" where
  "rne x = (let f = \<lfloor>x\<rfloor>; r = x - of_int f
            in if r < 1 / 2 then f
               else if 1 / 2 < r then f + 1
               else if even f then f else f + 1)"

text \<open>
  Rounding to a format with \<open>p\<close> significand bits and largest exponent \<open>emax\<close>: the unit in
  the last place is \<open>2^e\<close>, where \<open>e\<close> is bounded below by the subnormal exponent
  \<open>2 - emax - p\<close>; a result of magnitude \<open>2^(emax+1)\<close> or more is an infinity, and a
  negative number that rounds to zero gives the negative zero.
\<close>

definition round_fp :: "nat \<Rightarrow> int \<Rightarrow> real \<Rightarrow> cfloat" where
  "round_fp p emax x =
     (if x = 0 then Fin 0
      else let e = max (ilog2 \<bar>x\<bar> - (int p - 1)) (2 - emax - int p);
               y = of_int (rne (x / pow2 e)) * pow2 e
           in if pow2 (emax + 1) \<le> \<bar>y\<bar> then (if 0 < x then PInf else NInf)
              else if y = 0 \<and> x < 0 then NegZero
              else Fin y)"

definition to_double :: "real \<Rightarrow> cfloat" where
  "to_double = round_fp 53 1023"

definition to_float :: "real \<Rightarrow> cfloat" where
  "to_float = round_fp 24 127"

text \<open>The cast \<open>(float) d\<close> of a double.\<close>

fun cast_float :: "cfloat \<Rightarrow> cfloat" where
  "cast_float (Fin x) = to_float x"
| "cast_float NegZero = NegZero"
| "cast_float PInf = PInf"
| "cast_float NInf = NInf"
| "cast_float (NaN s) = NaN s"

text \<open>
  \<open>a + b\<close> on floats.  (Evaluating in a wider format and rounding to float on the store
  gives the same value.)  A NaN operand is the result, the left one if both are; the
  sign of the NaN that the sum of opposite infinities produces is not fixed by IEEE 754
  and is taken as set, as on x86-64.  A sum that is exactly zero is the positive zero,
  unless both operands are the negative zero.
\<close>

fun float_add :: "cfloat \<Rightarrow> cfloat \<Rightarrow> cfloat" where
  "float_add (NaN s) _ = NaN s"
| "float_add _ (NaN s) = NaN s"
| "float_add PInf NInf = NaN True"
| "float_add NInf PInf = NaN True"
| "float_add PInf _ = PInf"
| "float_add _ PInf = PInf"
| "float_add NInf _ = NInf"
| "float_add _ NInf = NInf"
| "float_add NegZero NegZero = NegZero"
| "float_add NegZero (Fin y) = to_float y"
| "float_add (Fin x) NegZero = to_float x"
| "float_add (Fin x) (Fin y) = to_float (x + y)"

fun fneg :: "cfloat \<Rightarrow> cfloat" where
  "fneg (Fin x) = (if x = 0 then NegZero else Fin (- x))"
| "fneg NegZero = Fin 0"
| "fneg PInf = NInf"
| "fneg NInf = PInf"
| "fneg (NaN s) = NaN (\<not> s)"

text \<open>
  \<open>a - b\<close> on floats: the sum of \<open>a\<close> and the negation of \<open>b\<close>, except that a NaN
  operand is the result as it is.
\<close>

definition float_sub :: "cfloat \<Rightarrow> cfloat \<Rightarrow> cfloat" where
  "float_sub a b =
     (case b of
        NaN s \<Rightarrow> (case a of NaN t \<Rightarrow> NaN t | _ \<Rightarrow> NaN s)
      | _ \<Rightarrow> float_add a (fneg b))"

text \<open>
  \<open>a * b\<close> on doubles: the sign of a zero or infinite product is the exclusive or of
  the signs, and zero times infinity is a NaN.
\<close>

definition double_mul :: "cfloat \<Rightarrow> cfloat \<Rightarrow> cfloat" where
  "double_mul a b =
     (case a of
        NaN s \<Rightarrow> NaN s
      | _ \<Rightarrow>
          (case b of
             NaN s \<Rightarrow> NaN s
           | _ \<Rightarrow>
               if finf a \<or> finf b then
                 (if fzero a \<or> fzero b then NaN True
                  else if fsign a \<noteq> fsign b then NInf else PInf)
               else if fval a * fval b = 0 then
                 (if fsign a \<noteq> fsign b then NegZero else Fin 0)
               else to_double (fval a * fval b)))"

text \<open>
  The comparisons \<open>a >= b\<close> and \<open>a < b\<close>: both are false when an operand is a NaN, and
  the two zeros are equal.
\<close>

fun fge :: "cfloat \<Rightarrow> cfloat \<Rightarrow> bool" where
  "fge (NaN s) _ = False"
| "fge _ (NaN s) = False"
| "fge PInf _ = True"
| "fge _ NInf = True"
| "fge _ PInf = False"
| "fge NInf _ = False"
| "fge a b = (fval b \<le> fval a)"

fun flt :: "cfloat \<Rightarrow> cfloat \<Rightarrow> bool" where
  "flt (NaN s) _ = False"
| "flt _ (NaN s) = False"
| "flt PInf _ = False"
| "flt _ NInf = False"
| "flt _ PInf = True"
| "flt NInf _ = True"
| "flt a b = (fval a < fval b)"


section \<open>Reading and printing numbers\<close>

definition isspace :: "char \<Rightarrow> bool" where
  "isspace c = (let n = (of_char c :: int) in n = 32 \<or> (9 \<le> n \<and> n \<le> 13))"

definition isdigit :: "char \<Rightarrow> bool" where
  "isdigit c = (let n = (of_char c :: int) in 48 \<le> n \<and> n \<le> 57)"

definition isxdigit :: "char \<Rightarrow> bool" where
  "isxdigit c = (isdigit c \<or> (97 \<le> tolower c \<and> tolower c \<le> 102))"

definition digit_val :: "char \<Rightarrow> int" where
  "digit_val c = (if isdigit c then of_char c - 48 else tolower c - 87)"

definition digits_val :: "int \<Rightarrow> string \<Rightarrow> int" where
  "digits_val base ds = foldl (\<lambda>a c. base * a + digit_val c) 0 ds"

text \<open>An optional sign in front of a number: whether it is a minus, and the rest.\<close>

fun split_sign :: "string \<Rightarrow> bool \<times> string" where
  "split_sign [] = (False, [])"
| "split_sign (c # cs) =
     (if c = CHR ''-'' then (True, cs)
      else if c = CHR ''+'' then (False, cs)
      else (False, c # cs))"

text \<open>
  \<open>atoi s\<close> is \<open>(int) strtol (s, NULL, 10)\<close>: white space, an optional sign, then
  decimal digits up to the first other character; no digits give 0.  \<open>strtol\<close> stops at
  the bounds of the 64-bit \<open>long\<close>, and the conversion to \<open>int\<close> keeps the low 32 bits.
\<close>

definition atoi :: "string \<Rightarrow> int" where
  "atoi s =
     (let (neg, s1) = split_sign (dropWhile isspace s);
          v = digits_val 10 (takeWhile isdigit s1);
          l = (if neg then max (- (2 ^ 63)) (- v) else min (2 ^ 63 - 1) v)
      in (l + 2 ^ 31) mod 2 ^ 32 - 2 ^ 31)"

text \<open>
  \<open>atof s\<close> is \<open>strtod (s, NULL)\<close>: white space, an optional sign, then the longest
  prefix that is \<open>inf\<close> or \<open>nan\<close> in any case, a hexadecimal constant \<open>0x h.h p\<plusminus>d\<close>,
  or a decimal constant \<open>d.d e\<plusminus>d\<close>.  The exact value is rounded to double and then
  given its sign, so that a minus in front of a zero gives the negative zero; when no
  number can be read the result is 0.
\<close>

definition starts_with_ci :: "string \<Rightarrow> string \<Rightarrow> bool" where
  "starts_with_ci p s = (map tolower (take (length p) s) = map tolower p)"

text \<open>The exponent part that follows a mantissa, introduced by the letter \<open>l\<close>: absent, it is 0.\<close>

definition exponent_part :: "char \<Rightarrow> string \<Rightarrow> int" where
  "exponent_part l s =
     (case s of
        [] \<Rightarrow> 0
      | c # r \<Rightarrow>
          if tolower c = tolower l then
            (let (neg, r1) = split_sign r; ds = takeWhile isdigit r1
             in if ds = [] then 0
                else if neg then - digits_val 10 ds else digits_val 10 ds)
          else 0)"

definition pow_int :: "int \<Rightarrow> int \<Rightarrow> real" where
  "pow_int b e = (if 0 \<le> e then of_int b ^ nat e else 1 / of_int b ^ nat (- e))"

text \<open>
  A mantissa in base \<open>base\<close> with an optional radix point, and its exponent part, which
  scales by powers of \<open>ebase\<close>; \<open>None\<close> when the mantissa has no digit.
\<close>

definition strtod_number ::
  "(char \<Rightarrow> bool) \<Rightarrow> int \<Rightarrow> char \<Rightarrow> int \<Rightarrow> int \<Rightarrow> string \<Rightarrow> real option" where
  "strtod_number isdig base l ebase bits s =
     (let ip = takeWhile isdig s;
          r1 = dropWhile isdig s;
          point = (r1 \<noteq> [] \<and> hd r1 = CHR ''.'');
          fp = (if point then takeWhile isdig (tl r1) else []);
          r2 = (if point then dropWhile isdig (tl r1) else r1)
      in if ip = [] \<and> fp = [] then None
         else Some (of_int (digits_val base (ip @ fp))
                    * pow_int ebase (exponent_part l r2 - bits * int (length fp))))"

definition strtod_finite :: "string \<Rightarrow> real" where
  "strtod_finite s =
     (case (if starts_with_ci ''0x'' s
            then strtod_number isxdigit 16 (CHR ''p'') 2 4 (drop 2 s) else None) of
        Some v \<Rightarrow> v
      | None \<Rightarrow>
          (case strtod_number isdigit 10 (CHR ''e'') 10 1 s of
             Some v \<Rightarrow> v
           | None \<Rightarrow> 0))"

definition atof :: "string \<Rightarrow> cfloat" where
  "atof s =
     (let (neg, s1) = split_sign (dropWhile isspace s)
      in if starts_with_ci ''inf'' s1 then (if neg then NInf else PInf)
         else if starts_with_ci ''nan'' s1 then NaN neg
         else if neg then fneg (to_double (strtod_finite s1))
         else to_double (strtod_finite s1))"

text \<open>The decimal digits of a number that is not negative, as \<open>printf\<close> writes them.\<close>

definition dec_digit :: "int \<Rightarrow> char" where
  "dec_digit d = ''0123456789'' ! nat d"

function dec_digits :: "int \<Rightarrow> string" where
  "dec_digits n =
     (if n < 10 then [dec_digit n]
      else dec_digits (n div 10) @ [dec_digit (n mod 10)])"
  by pat_completeness auto
termination
  by (relation "measure nat") auto

declare dec_digits.simps [simp del]

text \<open>\<open>printf ("%d", i)\<close>.\<close>

definition fmt_d :: "int \<Rightarrow> string" where
  "fmt_d i = (if i < 0 then CHR ''-'' # dec_digits (- i) else dec_digits i)"

text \<open>
  \<open>printf ("%.<d>f", x)\<close>: the value is rounded to \<open>d\<close> decimal places (to nearest, a tie
  to even) and written with exactly \<open>d\<close> digits behind the point; no point for \<open>d = 0\<close>.
  The minus sign is that of the value before rounding, so the negative zero is written
  with a minus, and so is a NaN whose sign bit is set.
\<close>

definition fmt_fixed :: "nat \<Rightarrow> bool \<Rightarrow> real \<Rightarrow> string" where
  "fmt_fixed d neg x =
     (let n = rne (\<bar>x\<bar> * 10 ^ d);
          frac = dec_digits (n mod 10 ^ d);
          body = dec_digits (n div 10 ^ d)
            @ (if d = 0 then []
               else CHR ''.'' # replicate (d - length frac) (CHR ''0'') @ frac)
      in if neg then CHR ''-'' # body else body)"

definition fmt_f :: "nat \<Rightarrow> cfloat \<Rightarrow> string" where
  "fmt_f d v =
     (case v of
        Fin x \<Rightarrow> fmt_fixed d (x < 0) x
      | NegZero \<Rightarrow> fmt_fixed d True 0
      | PInf \<Rightarrow> ''inf''
      | NInf \<Rightarrow> ''-inf''
      | NaN s \<Rightarrow> (if s then ''-nan'' else ''nan''))"


section \<open>The vessel record\<close>

datatype LocationCategory = SLIP | LAND | TRAILOR | STORAGE

text \<open>
  The union \<open>LocDetails\<close>, one constructor for each member: \<open>slipNo\<close>, \<open>bayLabel\<close>,
  \<open>trailerTag\<close> and \<open>storageSpot\<close>.
\<close>

datatype LocDetails = SlipNo int | BayLabel char | TrailerTag string | StorageSpot int

record Vessel =
  vesselName :: string
  lengthFt :: cfloat
  locationCat :: LocationCategory
  locationInfo :: LocDetails
  outstandingFees :: cfloat

text \<open>
  The messages of the program, under the names the specification gives them:
  \<open>CapacityExceeded\<close> is "Maximum capacity reached", \<open>MalformedRecord\<close> is "Invalid CSV
  format", \<open>IncompleteLocationData\<close> is "Incomplete data", \<open>UnknownLocationCategory\<close> is
  "Unknown location", \<open>MissingFeeData\<close> is "Missing fee data", \<open>NotFound\<close> is "No boat with
  that name", \<open>ExceedsBalance\<close> is "That is more than the amount owed".
\<close>

datatype error =
  CapacityExceeded | MalformedRecord | IncompleteLocationData | UnknownLocationCategory
  | MissingFeeData | NotFound | ExceedsBalance

text \<open>
  The fleet is the array \<open>fleet[0 .. totalCount - 1]\<close> of the vessels pointed to;
  \<open>totalCount\<close> is the length of the list.
\<close>

type_synonym Fleet = "Vessel list"


section \<open>Sorting and searching by name\<close>

definition compareVessels :: "Vessel \<Rightarrow> Vessel \<Rightarrow> int" where
  "compareVessels va vb = strcasecmp (vesselName va) (vesselName vb)"

text \<open>
  \<open>qsort (fleet, totalCount, sizeof (Vessel*), compareVessels)\<close>.  The C library fixes the
  result only as the elements in an order the comparison accepts; the model inserts
  each element in front of the first one that does not compare below it.
\<close>

fun qsort_insert :: "Vessel \<Rightarrow> Fleet \<Rightarrow> Fleet" where
  "qsort_insert v [] = [v]"
| "qsort_insert v (w # ws) =
     (if compareVessels v w \<le> 0 then v # w # ws else w # qsort_insert v ws)"

definition qsort :: "Fleet \<Rightarrow> Fleet" where
  "qsort fleet = foldr qsort_insert fleet []"

function locate_loop :: "nat \<Rightarrow> Fleet \<Rightarrow> string \<Rightarrow> nat option" where
  "locate_loop i fleet searchName =
     (if i < length fleet then
        (if strcasecmp (vesselName (fleet ! i)) searchName = 0 then Some i
         else locate_loop (i + 1) fleet searchName)
      else None)"
  by pat_completeness auto
termination
  by (relation "measure (\<lambda>(i, fleet, searchName). length fleet - i)") auto

declare locate_loop.simps [simp del]

text \<open>\<open>locateVesselByName\<close>: the index of the first match, \<open>None\<close> for the result -1.\<close>

definition locateVesselByName :: "Fleet \<Rightarrow> string \<Rightarrow> nat option" where
  "locateVesselByName fleet searchName = locate_loop 0 fleet searchName"


section \<open>Reading records\<close>

text \<open>
  The category and the location value in \<open>loadData\<close>: the category is compared with
  \<open>strcmp\<close>.  \<open>None\<close> is the \<open>continue\<close> that drops the line.
\<close>

definition load_location ::
  "string \<Rightarrow> string \<Rightarrow> (LocationCategory \<times> LocDetails \<times> string) option" where
  "load_location segment remainder =
     (if segment = ''slip'' then
        (case strtok_r remainder of
           None \<Rightarrow> None
         | Some (seg, rem) \<Rightarrow> Some (SLIP, SlipNo (atoi seg), rem))
      else if segment = ''land'' then
        (case strtok_r remainder of
           None \<Rightarrow> None
         | Some (seg, rem) \<Rightarrow>
             if length seg = 0 then None else Some (LAND, BayLabel (hd seg), rem))
      else if segment = ''trailor'' then
        (case strtok_r remainder of
           None \<Rightarrow> None
         | Some (seg, rem) \<Rightarrow> Some (TRAILOR, TrailerTag (strncpy seg 9), rem))
      else if segment = ''storage'' then
        (case strtok_r remainder of
           None \<Rightarrow> None
         | Some (seg, rem) \<Rightarrow> Some (STORAGE, StorageSpot (atoi seg), rem))
      else None)"

text \<open>
  The body of the loop of \<open>loadData\<close> on one line, its newline removed.  (\<open>malloc\<close> is
  taken to succeed, here and in \<open>insertVessel\<close>.)
\<close>

definition loadLine :: "string \<Rightarrow> Vessel option" where
  "loadLine line =
     (case strtok_r line of
        None \<Rightarrow> None
      | Some (segment, remainder) \<Rightarrow>
          let name = strncpy segment (MAX_VESSEL_NAME_LEN - 1) in
          (case strtok_r remainder of
             None \<Rightarrow> None
           | Some (segment, remainder) \<Rightarrow>
               let len = cast_float (atof segment) in
               (case strtok_r remainder of
                  None \<Rightarrow> None
                | Some (segment, remainder) \<Rightarrow>
                    (case load_location segment remainder of
                       None \<Rightarrow> None
                     | Some (cat, info, remainder) \<Rightarrow>
                         (case strtok_r remainder of
                            None \<Rightarrow> None
                          | Some (segment, remainder) \<Rightarrow>
                              Some \<lparr>vesselName = name, lengthFt = len,
                                    locationCat = cat, locationInfo = info,
                                    outstandingFees = cast_float (atof segment)\<rparr>)))))"

text \<open>
  The loop of \<open>loadData\<close> over the lines that \<open>fgets\<close> returns: it stops at the end of
  the file or when the array is full.
\<close>

fun load_loop :: "string list \<Rightarrow> Fleet \<Rightarrow> Fleet" where
  "load_loop [] fleet = fleet"
| "load_loop (line # rest) fleet =
     (if length fleet < MAX_VESSELS then
        (case loadLine (strip_newline line) of
           None \<Rightarrow> load_loop rest fleet
         | Some newBoat \<Rightarrow> load_loop rest (fleet @ [newBoat]))
      else fleet)"

text \<open>
  \<open>loadData\<close>, called by \<open>main\<close> on the empty fleet: \<open>None\<close> is a file that cannot be
  opened, \<open>Some lines\<close> the lines of the file.
\<close>

definition loadData :: "string list option \<Rightarrow> Fleet" where
  "loadData file = (case file of None \<Rightarrow> [] | Some lines \<Rightarrow> qsort (load_loop lines []))"

text \<open>The category and the location value in \<open>insertVessel\<close>: compared with \<open>strcasecmp\<close>.\<close>

definition insert_location ::
  "string \<Rightarrow> string \<Rightarrow> error + (LocationCategory \<times> LocDetails \<times> string)" where
  "insert_location token rest =
     (if strcasecmp token ''slip'' = 0 then
        (case strtok_r rest of
           None \<Rightarrow> Inl IncompleteLocationData
         | Some (tok, rest) \<Rightarrow> Inr (SLIP, SlipNo (atoi tok), rest))
      else if strcasecmp token ''land'' = 0 then
        (case strtok_r rest of
           None \<Rightarrow> Inl IncompleteLocationData
         | Some (tok, rest) \<Rightarrow>
             if length tok = 0 then Inl IncompleteLocationData
             else Inr (LAND, BayLabel (hd tok), rest))
      else if strcasecmp token ''trailor'' = 0 then
        (case strtok_r rest of
           None \<Rightarrow> Inl IncompleteLocationData
         | Some (tok, rest) \<Rightarrow> Inr (TRAILOR, TrailerTag (strncpy tok 9), rest))
      else if strcasecmp token ''storage'' = 0 then
        (case strtok_r rest of
           None \<Rightarrow> Inl IncompleteLocationData
         | Some (tok, rest) \<Rightarrow> Inr (STORAGE, StorageSpot (atoi tok), rest))
      else Inl UnknownLocationCategory)"

text \<open>The parsing in \<open>insertVessel\<close>, on the copy of the line in \<open>buffer\<close>.\<close>

definition parse_insert :: "string \<Rightarrow> error + Vessel" where
  "parse_insert buffer =
     (case strtok_r buffer of
        None \<Rightarrow> Inl MalformedRecord
      | Some (token, rest) \<Rightarrow>
          let name = strncpy token (MAX_VESSEL_NAME_LEN - 1) in
          (case strtok_r rest of
             None \<Rightarrow> Inl MalformedRecord
           | Some (token, rest) \<Rightarrow>
               let len = cast_float (atof token) in
               (case strtok_r rest of
                  None \<Rightarrow> Inl MalformedRecord
                | Some (token, rest) \<Rightarrow>
                    (case insert_location token rest of
                       Inl e \<Rightarrow> Inl e
                     | Inr (cat, info, rest) \<Rightarrow>
                         (case strtok_r rest of
                            None \<Rightarrow> Inl MissingFeeData
                          | Some (token, rest) \<Rightarrow>
                              Inr \<lparr>vesselName = name, lengthFt = len,
                                   locationCat = cat, locationInfo = info,
                                   outstandingFees = cast_float (atof token)\<rparr>)))))"

text \<open>
  \<open>insertVessel\<close>: the message printed, if any, and the fleet afterwards.
\<close>

definition insertVessel :: "Fleet \<Rightarrow> string \<Rightarrow> error option \<times> Fleet" where
  "insertVessel fleet csvLine =
     (if MAX_VESSELS \<le> length fleet then (Some CapacityExceeded, fleet)
      else case parse_insert (strncpy csvLine 255) of
             Inl e \<Rightarrow> (Some e, fleet)
           | Inr newBoat \<Rightarrow> (None, qsort (fleet @ [newBoat])))"



section \<open>Removing a vessel\<close>

text \<open>The loop \<open>for (i = idx; i < totalCount - 1; i++) fleet[i] = fleet[i + 1]\<close>.\<close>

function shift_left :: "nat \<Rightarrow> Fleet \<Rightarrow> Fleet" where
  "shift_left i fleet =
     (if i + 1 < length fleet then shift_left (i + 1) (fleet[i := fleet ! (i + 1)])
      else fleet)"
  by pat_completeness auto
termination
  by (relation "measure (\<lambda>(i, fleet). length fleet - i)") auto

declare shift_left.simps [simp del]

text \<open>
  \<open>removeVessel\<close>: the input is what \<open>fgets\<close> read into \<open>targetName\<close> (\<open>None\<close> at the end
  of the input); after the shift \<open>totalCount\<close> is decremented.
\<close>

definition removeVessel :: "Fleet \<Rightarrow> string option \<Rightarrow> error option \<times> Fleet" where
  "removeVessel fleet input =
     (case input of
        None \<Rightarrow> (None, fleet)
      | Some targetName \<Rightarrow>
          (case locateVesselByName fleet (strip_newline targetName) of
             None \<Rightarrow> (Some NotFound, fleet)
           | Some idx \<Rightarrow> (None, butlast (shift_left idx fleet))))"


section \<open>Payments and monthly fees\<close>

definition recordPayment ::
  "Fleet \<Rightarrow> string option \<Rightarrow> string option \<Rightarrow> error option \<times> Fleet" where
  "recordPayment fleet nameInput amountInput =
     (case nameInput of
        None \<Rightarrow> (None, fleet)
      | Some inputName \<Rightarrow>
          (case locateVesselByName fleet (strip_newline inputName) of
             None \<Rightarrow> (Some NotFound, fleet)
           | Some index \<Rightarrow>
               (case amountInput of
                  None \<Rightarrow> (None, fleet)
                | Some buf \<Rightarrow>
                    let amount = cast_float (atof buf) in
                    if fge amount (outstandingFees (fleet ! index))
                    then (Some ExceedsBalance, fleet)
                    else (None, fleet[index := (fleet ! index)
                            \<lparr>outstandingFees :=
                               float_sub (outstandingFees (fleet ! index)) amount\<rparr>]))))"








section \<open>Writing records\<close>

fun locationCategoryToStr :: "LocationCategory \<Rightarrow> string" where
  "locationCategoryToStr SLIP = ''slip''"
| "locationCategoryToStr LAND = ''land''"
| "locationCategoryToStr TRAILOR = ''trailor''"
| "locationCategoryToStr STORAGE = ''storage''"

text \<open>
  The location value as \<open>saveData\<close> prints it: the member of the union that the category
  selects.  Every vessel that is read stores the member of its category; for any other
  combination the C program would reinterpret the bytes of the union, and the model
  prints nothing.
\<close>

fun location_field :: "LocationCategory \<Rightarrow> LocDetails \<Rightarrow> string" where
  "location_field SLIP (SlipNo n) = fmt_d n"
| "location_field LAND (BayLabel c) = [c]"
| "location_field TRAILOR (TrailerTag t) = t"
| "location_field STORAGE (StorageSpot n) = fmt_d n"
| "location_field _ _ = []"

text \<open>The line that \<open>saveData\<close> writes for one vessel.\<close>

definition saveLine :: "Vessel \<Rightarrow> string" where
  "saveLine v =
     vesselName v @ '','' @ fmt_f 0 (lengthFt v) @ '',''
       @ locationCategoryToStr (locationCat v) @ '',''
       @ location_field (locationCat v) (locationInfo v)
       @ '','' @ fmt_f 2 (outstandingFees v) @ [CHR 0x0A]"

definition saveData :: "Fleet \<Rightarrow> string list" where
  "saveData fleet = map saveLine fleet"


section \<open>Notions used by the properties\<close>

text \<open>A C string holds no NUL byte.\<close>

definition cstring :: "string \<Rightarrow> bool" where
  "cstring s = (CHR 0x00 \<notin> set s)"

text \<open>The comparison function of the program accepts the order of the fleet.\<close>

definition fleet_sorted :: "Fleet \<Rightarrow> bool" where
  "fleet_sorted fleet = sorted_wrt (\<lambda>va vb. compareVessels va vb \<le> 0) fleet"

text \<open>
  The order of the specification, which does not refer to the program: a name without
  regard to case is the name with every capital letter of the Latin alphabet replaced
  by its small letter, and names are compared in the lexicographic order of strings,
  characters by their code.  (The order on strings is the one of the library theories
  \<open>List_Lexorder\<close> and \<open>Char_ord\<close>.)
\<close>

definition to_lower :: "char \<Rightarrow> char" where
  "to_lower c =
     (case map_of (zip ''ABCDEFGHIJKLMNOPQRSTUVWXYZ'' ''abcdefghijklmnopqrstuvwxyz'') c of
        None \<Rightarrow> c
      | Some l \<Rightarrow> l)"

definition lowercase :: "string \<Rightarrow> string" where
  "lowercase s = map to_lower s"

definition names_nondecreasing :: "Fleet \<Rightarrow> bool" where
  "names_nondecreasing fleet = sorted (map (\<lambda>v. lowercase (vesselName v)) fleet)"

definition names_cstring :: "Fleet \<Rightarrow> bool" where
  "names_cstring fleet = list_all (\<lambda>v. cstring (vesselName v)) fleet"


text \<open>The commands that add and remove vessels, and their effect on the fleet.\<close>

datatype operation = Insert string | Remove "string option"

fun apply_operation :: "Fleet \<Rightarrow> operation \<Rightarrow> Fleet" where
  "apply_operation fleet (Insert csvLine) = snd (insertVessel fleet csvLine)"
| "apply_operation fleet (Remove input) = snd (removeVessel fleet input)"


text \<open>A vessel in slip 1, for examples: its name, its length and its balance.\<close>

definition slip_vessel :: "string \<Rightarrow> real \<Rightarrow> real \<Rightarrow> Vessel" where
  "slip_vessel name len fees =
     \<lparr>vesselName = name, lengthFt = Fin len, locationCat = SLIP,
      locationInfo = SlipNo 1, outstandingFees = Fin fees\<rparr>"





section \<open>Evaluation\<close>

lemmas fp_eval = pow2_def ilog2_def rne_def round_fp_def to_double_def to_float_def
  compute_bitlen float_sub_def double_mul_def Let_def

lemmas str_eval = isspace_def isdigit_def isxdigit_def digit_val_def digits_val_def
  tolower_def atoi_def atof_def starts_with_ci_def exponent_part_def pow_int_def
  strtod_number_def strtod_finite_def dec_digits.simps dec_digit_def fmt_d_def fmt_f_def
  fmt_fixed_def strtok_r_def strncpy_def strip_newline_def

lemmas prog_eval = loadLine_def load_location_def parse_insert_def insert_location_def
  MAX_VESSEL_NAME_LEN_def MAX_VESSELS_def saveLine_def


section \<open>The order of names\<close>

lemma of_char_int_nonneg: "0 \<le> (of_char c :: int)"
proof -
  have "(of_char c :: int) = int (of_char c)" by (simp only: of_nat_of_char)
  then show ?thesis by simp
qed

lemma tolower_nonneg: "0 \<le> tolower c"
  using of_char_int_nonneg [of c] by (simp add: tolower_def Let_def)

lemma tolower_pos: "c \<noteq> CHR 0x00 \<Longrightarrow> 0 < tolower c"
proof -
  assume "c \<noteq> CHR 0x00"
  then have "(of_char c :: int) \<noteq> of_char (CHR 0x00)"
    by (simp only: of_char_eq_iff not_False_eq_True)
  then have "(of_char c :: int) \<noteq> 0" by simp
  moreover have "0 \<le> (of_char c :: int)" by (rule of_char_int_nonneg)
  ultimately show ?thesis by (simp add: tolower_def Let_def)
qed

lemma tolower_hd_pos: "cstring (c # cs) \<Longrightarrow> 0 < tolower c"
  by (rule tolower_pos) (auto simp: cstring_def)


lemma strcasecmp_flip: "strcasecmp b a = - strcasecmp a b"
  by (induction a b rule: strcasecmp.induct) auto

lemma strcasecmp_total: "strcasecmp a b \<le> 0 \<or> strcasecmp b a \<le> 0"
  using strcasecmp_flip [of b a] by linarith

lemma strcasecmp_trans:
  "cstring a \<Longrightarrow> cstring b \<Longrightarrow> strcasecmp a b \<le> 0 \<Longrightarrow> strcasecmp b c \<le> 0
   \<Longrightarrow> strcasecmp a c \<le> 0"
proof (induction a b arbitrary: c rule: strcasecmp.induct)
  case 1
  then show ?case by simp
next
  case (2 y ys)
  show ?case using tolower_nonneg by (cases c) simp_all
next
  case (3 x xs)
  then have "0 < tolower x" by (simp add: tolower_hd_pos)
  with 3 show ?case by simp
next
  case (4 x xs y ys)
  show ?case
  proof (cases c)
    case Nil
    from 4 have "0 < tolower y" by (simp add: tolower_hd_pos)
    with 4 Nil show ?thesis by simp
  next
    case (Cons z zs)
    with 4 show ?thesis by (auto simp: cstring_def split: if_splits)
  qed
qed


lemma compareVessels_total: "compareVessels a b \<le> 0 \<or> compareVessels b a \<le> 0"
  unfolding compareVessels_def by (rule strcasecmp_total)

lemma compareVessels_trans:
  "cstring (vesselName a) \<Longrightarrow> cstring (vesselName b) \<Longrightarrow> compareVessels a b \<le> 0
   \<Longrightarrow> compareVessels b c \<le> 0 \<Longrightarrow> compareVessels a c \<le> 0"
  unfolding compareVessels_def by (rule strcasecmp_trans)

lemma set_qsort_insert: "set (qsort_insert v ws) = insert v (set ws)"
  by (induction ws) auto

lemma set_qsort: "set (qsort fleet) = set fleet"
  by (induction fleet) (simp_all add: qsort_def set_qsort_insert)

lemma length_qsort_insert: "length (qsort_insert v ws) = Suc (length ws)"
  by (induction ws) auto

lemma length_qsort: "length (qsort fleet) = length fleet"
  by (induction fleet) (simp_all add: qsort_def length_qsort_insert)

lemma sorted_qsort_insert:
  "names_cstring (v # ws) \<Longrightarrow> fleet_sorted ws \<Longrightarrow> fleet_sorted (qsort_insert v ws)"
proof (induction ws)
  case Nil
  then show ?case by (simp add: fleet_sorted_def)
next
  case (Cons w ws)
  show ?case
  proof (cases "compareVessels v w \<le> 0")
    case True
    have "compareVessels v u \<le> 0" if "u \<in> set ws" for u
    proof -
      from Cons.prems that have "compareVessels w u \<le> 0" by (simp add: fleet_sorted_def)
      with True Cons.prems show ?thesis
        by (auto simp: names_cstring_def intro: compareVessels_trans)
    qed
    with True Cons.prems show ?thesis by (simp add: fleet_sorted_def)
  next
    case False
    then have wv: "compareVessels w v \<le> 0" using compareVessels_total [of v w] by simp
    from Cons have "fleet_sorted (qsort_insert v ws)"
      by (simp add: fleet_sorted_def names_cstring_def)
    with False wv Cons.prems show ?thesis
      by (simp add: fleet_sorted_def set_qsort_insert)
  qed
qed

lemma sorted_qsort: "names_cstring fleet \<Longrightarrow> fleet_sorted (qsort fleet)"
proof (induction fleet)
  case Nil
  show ?case by (simp add: qsort_def fleet_sorted_def)
next
  case (Cons v fleet)
  then have "fleet_sorted (qsort fleet)" by (simp add: names_cstring_def)
  moreover from Cons.prems have "names_cstring (v # qsort fleet)"
    by (simp add: names_cstring_def list_all_iff set_qsort)
  ultimately have "fleet_sorted (qsort_insert v (qsort fleet))" by (rule sorted_qsort_insert [rotated])
  then show ?case by (simp add: qsort_def)
qed


section \<open>The loops of removal and search\<close>

lemma length_shift_left: "length (shift_left i fleet) = length fleet"
proof (induction i fleet rule: shift_left.induct)
  case (1 i fleet)
  then show ?case by (subst shift_left.simps) simp
qed

lemma nth_shift_left:
  "j < length fleet \<Longrightarrow>
   shift_left i fleet ! j = (if i \<le> j \<and> j + 1 < length fleet then fleet ! (j + 1) else fleet ! j)"
proof (induction i fleet arbitrary: j rule: shift_left.induct)
  case (1 i fleet)
  show ?case
  proof (cases "i + 1 < length fleet")
    case True
    with 1 show ?thesis
      by (subst shift_left.simps) (auto simp: nth_list_update)
  next
    case False
    with 1 show ?thesis
      by (subst shift_left.simps) auto
  qed
qed

lemma butlast_shift_left:
  assumes "idx < length fleet"
  shows "butlast (shift_left idx fleet) = take idx fleet @ drop (Suc idx) fleet"
proof (rule nth_equalityI)
  show "length (butlast (shift_left idx fleet)) = length (take idx fleet @ drop (Suc idx) fleet)"
    using assms by (simp add: length_shift_left)
next
  fix j
  assume "j < length (butlast (shift_left idx fleet))"
  then have j: "j + 1 < length fleet" by (simp add: length_shift_left)
  then have "butlast (shift_left idx fleet) ! j = shift_left idx fleet ! j"
    by (simp add: nth_butlast length_shift_left)
  also have "\<dots> = (if idx \<le> j then fleet ! (j + 1) else fleet ! j)"
    using j by (simp add: nth_shift_left)
  also have "\<dots> = (take idx fleet @ drop (Suc idx) fleet) ! j"
    using j assms by (auto simp: nth_append min_def)
  finally show "butlast (shift_left idx fleet) ! j = (take idx fleet @ drop (Suc idx) fleet) ! j" .
qed

lemma locate_loop_Some:
  "locate_loop i fleet s = Some k \<Longrightarrow>
   i \<le> k \<and> k < length fleet \<and> strcasecmp (vesselName (fleet ! k)) s = 0
   \<and> (\<forall>j. i \<le> j \<and> j < k \<longrightarrow> strcasecmp (vesselName (fleet ! j)) s \<noteq> 0)"
proof (induction i fleet s rule: locate_loop.induct)
  case (1 i fleet s)
  show ?case
  proof (cases "i < length fleet \<and> strcasecmp (vesselName (fleet ! i)) s \<noteq> 0")
    case True
    with "1.prems" have "locate_loop (i + 1) fleet s = Some k"
      by (subst (asm) locate_loop.simps) simp
    with True "1.IH" have *: "i + 1 \<le> k \<and> k < length fleet \<and> strcasecmp (vesselName (fleet ! k)) s = 0
       \<and> (\<forall>j. i + 1 \<le> j \<and> j < k \<longrightarrow> strcasecmp (vesselName (fleet ! j)) s \<noteq> 0)"
      by simp
    have "strcasecmp (vesselName (fleet ! j)) s \<noteq> 0" if "i \<le> j" "j < k" for j
      using that True * by (cases "j = i") auto
    with * show ?thesis by auto
  next
    case False
    with "1.prems" show ?thesis
      by (subst (asm) locate_loop.simps) (auto split: if_splits)
  qed
qed

lemma locate_loop_None:
  "locate_loop i fleet s = None \<Longrightarrow>
   (\<forall>j. i \<le> j \<and> j < length fleet \<longrightarrow> strcasecmp (vesselName (fleet ! j)) s \<noteq> 0)"
proof (induction i fleet s rule: locate_loop.induct)
  case (1 i fleet s)
  show ?case
  proof (cases "i < length fleet")
    case True
    with "1.prems" have ne: "strcasecmp (vesselName (fleet ! i)) s \<noteq> 0"
      and rec: "locate_loop (i + 1) fleet s = None"
      by (subst (asm) locate_loop.simps, simp split: if_splits)+
    from "1.IH" [OF True ne rec] have
      *: "\<forall>j. i + 1 \<le> j \<and> j < length fleet \<longrightarrow> strcasecmp (vesselName (fleet ! j)) s \<noteq> 0" .
    have "strcasecmp (vesselName (fleet ! j)) s \<noteq> 0" if "i \<le> j" "j < length fleet" for j
      using that ne * by (cases "j = i") auto
    then show ?thesis by simp
  next
    case False
    then show ?thesis by simp
  qed
qed



section \<open>Names stay C strings and the fleet stays sorted\<close>

lemma cstring_strncpy: "cstring (strncpy src n)"
  by (auto simp: cstring_def strncpy_def dest!: in_set_takeD set_takeWhileD)


lemma loadLine_name:
  "loadLine line = Some v \<Longrightarrow>
   \<exists>tok rest. strtok_r line = Some (tok, rest) \<and> vesselName v = strncpy tok 127"
  by (auto simp: loadLine_def MAX_VESSEL_NAME_LEN_def Let_def split: option.splits prod.splits)

lemma parse_insert_name:
  "parse_insert buffer = Inr v \<Longrightarrow>
   \<exists>tok rest. strtok_r buffer = Some (tok, rest) \<and> vesselName v = strncpy tok 127"
  by (auto simp: parse_insert_def MAX_VESSEL_NAME_LEN_def Let_def
      split: option.splits prod.splits sum.splits)

lemma names_cstring_append:
  "names_cstring (fleet @ [v]) = (names_cstring fleet \<and> cstring (vesselName v))"
  by (simp add: names_cstring_def)


lemma load_loop_names:
  "names_cstring fleet \<Longrightarrow> names_cstring (load_loop lines fleet)"
proof (induction lines arbitrary: fleet)
  case Nil
  then show ?case by simp
next
  case (Cons line lines)
  show ?case
  proof (cases "loadLine (strip_newline line)")
    case None
    with Cons show ?thesis by simp
  next
    case (Some v)
    then have "cstring (vesselName v)" by (auto dest!: loadLine_name simp: cstring_strncpy)
    with Cons Some show ?thesis by (simp add: names_cstring_append)
  qed
qed


lemma names_cstring_qsort: "names_cstring (qsort fleet) = names_cstring fleet"
  by (simp add: names_cstring_def list_all_iff set_qsort)


lemma names_cstring_Nil: "names_cstring []"
  by (simp add: names_cstring_def)

lemma loadData_names: "names_cstring (loadData contents)"
  by (cases contents)
     (simp_all add: loadData_def names_cstring_qsort load_loop_names names_cstring_Nil)

lemma loadData_sorted: "fleet_sorted (loadData contents)"
proof (cases contents)
  case None
  then show ?thesis by (simp add: loadData_def fleet_sorted_def)
next
  case (Some lines)
  have "names_cstring (load_loop lines [])"
    by (rule load_loop_names) (simp add: names_cstring_def)
  with Some show ?thesis by (simp add: loadData_def sorted_qsort)
qed

lemma insertVessel_cases:
  "snd (insertVessel fleet csvLine) = fleet
   \<or> (\<exists>v tok rest. strtok_r (strncpy csvLine 255) = Some (tok, rest)
        \<and> vesselName v = strncpy tok 127
        \<and> snd (insertVessel fleet csvLine) = qsort (fleet @ [v]))"
proof (cases "parse_insert (strncpy csvLine 255)")
  case (Inl e)
  then show ?thesis by (simp add: insertVessel_def)
next
  case (Inr v)
  from parse_insert_name [OF Inr] Inr show ?thesis
    by (auto simp: insertVessel_def)
qed

lemma insertVessel_invariant:
  assumes "names_cstring fleet" "fleet_sorted fleet"
  shows "names_cstring (snd (insertVessel fleet csvLine))
         \<and> fleet_sorted (snd (insertVessel fleet csvLine))"
  using insertVessel_cases [of fleet csvLine] assms
  by (auto simp: names_cstring_qsort names_cstring_append cstring_strncpy intro!: sorted_qsort)

lemma removeVessel_cases:
  "snd (removeVessel fleet input) = fleet
   \<or> (\<exists>idx < length fleet. snd (removeVessel fleet input) = take idx fleet @ drop (Suc idx) fleet)"
proof (cases input)
  case None
  then show ?thesis by (simp add: removeVessel_def)
next
  case (Some targetName)
  show ?thesis
  proof (cases "locateVesselByName fleet (strip_newline targetName)")
    case None
    with Some show ?thesis by (simp add: removeVessel_def)
  next
    case (Some idx)
    then have "idx < length fleet"
      by (auto simp: locateVesselByName_def dest: locate_loop_Some)
    with Some \<open>input = Some targetName\<close> show ?thesis
      by (auto simp: removeVessel_def butlast_shift_left)
  qed
qed

lemma sorted_wrt_remove_nth:
  "sorted_wrt P xs \<Longrightarrow> sorted_wrt P (take i xs @ drop (Suc i) xs)"
proof -
  assume a: "sorted_wrt P xs"
  have "xs = take i xs @ drop i xs" by simp
  with a have "sorted_wrt P (take i xs @ drop i xs)" by simp
  then have t: "sorted_wrt P (take i xs)" and d: "sorted_wrt P (drop i xs)"
    and c: "\<forall>x\<in>set (take i xs). \<forall>y\<in>set (drop i xs). P x y"
    unfolding sorted_wrt_append by blast+
  have sub: "set (drop (Suc i) xs) \<subseteq> set (drop i xs)" by (rule set_drop_subset_set_drop) simp
  have "drop (Suc i) xs = drop 1 (drop i xs)" by simp
  with d have d': "sorted_wrt P (drop (Suc i) xs)" by (simp only: sorted_wrt_drop)
  from t d' c sub show ?thesis by (auto simp: sorted_wrt_append)
qed

lemma removeVessel_invariant:
  assumes "names_cstring fleet" "fleet_sorted fleet"
  shows "names_cstring (snd (removeVessel fleet input))
         \<and> fleet_sorted (snd (removeVessel fleet input))"
proof -
  have *: "names_cstring (take i fleet @ drop (Suc i) fleet)" for i
    using assms(1) by (auto simp: names_cstring_def list_all_iff dest: in_set_takeD in_set_dropD)
  have **: "fleet_sorted (take i fleet @ drop (Suc i) fleet)" for i
    using assms(2) unfolding fleet_sorted_def by (rule sorted_wrt_remove_nth)
  from removeVessel_cases [of fleet input] assms * ** show ?thesis by auto
qed

lemma apply_operation_invariant:
  "names_cstring fleet \<and> fleet_sorted fleet \<Longrightarrow>
   names_cstring (apply_operation fleet op) \<and> fleet_sorted (apply_operation fleet op)"
  by (cases op) (simp_all add: insertVessel_invariant removeVessel_invariant)

lemma foldl_apply_operation_invariant:
  "names_cstring fleet \<and> fleet_sorted fleet \<Longrightarrow>
   names_cstring (foldl apply_operation fleet ops) \<and> fleet_sorted (foldl apply_operation fleet ops)"
proof (induction ops arbitrary: fleet)
  case Nil
  then show ?case by simp
next
  case (Cons op ops)
  from Cons.prems have "names_cstring (apply_operation fleet op) \<and> fleet_sorted (apply_operation fleet op)"
    by (rule apply_operation_invariant)
  then show ?case using Cons.IH by simp
qed

lemma capital_iff:
  "c \<in> set ''ABCDEFGHIJKLMNOPQRSTUVWXYZ'' \<longleftrightarrow> 65 \<le> (of_char c :: int) \<and> (of_char c :: int) \<le> 90"
proof
  assume "c \<in> set ''ABCDEFGHIJKLMNOPQRSTUVWXYZ''"
  then show "65 \<le> (of_char c :: int) \<and> (of_char c :: int) \<le> 90" by auto
next
  assume r: "65 \<le> (of_char c :: int) \<and> (of_char c :: int) \<le> 90"
  then have "(of_char c :: int) \<in> set [65..90]" by (simp only: set_upto atLeastAtMost_iff)
  then have "(of_char c :: int) \<in> of_char ` set ''ABCDEFGHIJKLMNOPQRSTUVWXYZ''" by simp
  then obtain u where u: "u \<in> set ''ABCDEFGHIJKLMNOPQRSTUVWXYZ''" "(of_char c :: int) = of_char u"
    by blast
  from u(2) have "c = u" by (simp only: of_char_eq_iff)
  with u(1) show "c \<in> set ''ABCDEFGHIJKLMNOPQRSTUVWXYZ''" by simp
qed

lemma tolower_to_lower: "tolower c = of_char (to_lower c)"
proof (cases "c \<in> set ''ABCDEFGHIJKLMNOPQRSTUVWXYZ''")
  case True
  then show ?thesis by (auto simp: to_lower_def tolower_def)
next
  case False
  then have "c \<notin> fst ` set (zip ''ABCDEFGHIJKLMNOPQRSTUVWXYZ'' ''abcdefghijklmnopqrstuvwxyz'')"
    by simp
  then have "map_of (zip ''ABCDEFGHIJKLMNOPQRSTUVWXYZ'' ''abcdefghijklmnopqrstuvwxyz'') c = None"
    by (rule map_of_eq_None_iff [THEN iffD2])
  then have "to_lower c = c" by (simp only: to_lower_def option.case)
  moreover from False have "\<not> (65 \<le> (of_char c :: int) \<and> (of_char c :: int) \<le> 90)"
    using capital_iff [of c] by blast
  ultimately show ?thesis by (simp add: tolower_def Let_def)
qed

lemma of_char_int_nat: "(of_char c :: int) = int (of_char c)"
  by (simp only: of_nat_of_char)

lemma to_lower_less_iff: "to_lower x < to_lower y \<longleftrightarrow> tolower x < tolower y"
  by (simp add: tolower_to_lower less_char_def of_char_int_nat)

lemma to_lower_eq_iff: "to_lower x = to_lower y \<longleftrightarrow> tolower x = tolower y"
  by (simp add: tolower_to_lower)

lemma strcasecmp_le_iff:
  "cstring a \<Longrightarrow> strcasecmp a b \<le> 0 \<longleftrightarrow> lowercase a \<le> lowercase b"
proof (induction a b rule: strcasecmp.induct)
  case 1
  show ?case by (simp add: lowercase_def)
next
  case (2 y ys)
  show ?case using tolower_nonneg [of y] by (simp add: lowercase_def)
next
  case (3 x xs)
  from tolower_hd_pos [OF 3] show ?case by (simp add: lowercase_def)
next
  case (4 x xs y ys)
  from "4.prems" have "cstring xs" by (simp add: cstring_def)
  with "4.IH" have ih: "tolower x = tolower y \<Longrightarrow>
      strcasecmp xs ys \<le> 0 \<longleftrightarrow> lowercase xs \<le> lowercase ys" by simp
  show ?case
  proof (cases "tolower x = tolower y")
    case True
    with ih show ?thesis
      by (simp add: lowercase_def to_lower_eq_iff [symmetric])
  next
    case False
    then have "to_lower x \<noteq> to_lower y" by (simp add: to_lower_eq_iff)
    with False show ?thesis
      using to_lower_less_iff [of x y] by (auto simp: lowercase_def)
  qed
qed

lemma fleet_sorted_iff:
  assumes "names_cstring fleet"
  shows "fleet_sorted fleet \<longleftrightarrow> names_nondecreasing fleet"
proof -
  have eq: "compareVessels va vb \<le> 0 \<longleftrightarrow> lowercase (vesselName va) \<le> lowercase (vesselName vb)"
    if "va \<in> set fleet" for va vb
    using assms that
    by (simp add: names_cstring_def list_all_iff compareVessels_def strcasecmp_le_iff)
  have "sorted_wrt (\<lambda>va vb. compareVessels va vb \<le> 0) fleet
      = sorted_wrt (\<lambda>va vb. lowercase (vesselName va) \<le> lowercase (vesselName vb)) fleet"
    using eq by (auto elim!: sorted_wrt_mono_rel [rotated])
  then show ?thesis
    by (simp add: fleet_sorted_def names_nondecreasing_def sorted_wrt_map)
qed

text \<open>
  Claim C1.  The program loads the file and then executes any sequence of additions and
  removals; whatever the file (or if it cannot be opened), whatever the lines typed
  and the names given, the fleet that \<open>listAllVessels\<close> and \<open>saveData\<close> traverse
  afterwards is in non-decreasing order of vessel name, in the lexicographic order of
  the names without regard to case.
\<close>

theorem names_nondecreasing_after_operations:
  "names_nondecreasing (foldl apply_operation (loadData contents) ops)"
proof -
  have "names_cstring (foldl apply_operation (loadData contents) ops)
      \<and> fleet_sorted (foldl apply_operation (loadData contents) ops)"
    using loadData_names loadData_sorted by (intro foldl_apply_operation_invariant) simp
  then show ?thesis using fleet_sorted_iff by blast
qed

text \<open>
  The example of the specification: the file with the lines of Alpha and beta, in
  either order, is listed as Alpha, beta.
\<close>

lemma load_alpha_beta:
  "map vesselName (loadData (Some [''beta,10,land,B,0.00\<newline>'', ''Alpha,20,slip,5,100.00\<newline>'']))
     = [''Alpha'', ''beta'']"
  by (simp add: loadData_def qsort_def compareVessels_def prog_eval fp_eval str_eval)



section \<open>Capacity, removal and the bound on the length of names\<close>

text \<open>
  Claim C6.  When the fleet already holds 120 vessels, \<open>insertVessel\<close> reports that the
  capacity is reached whatever the line is, and the fleet afterwards is the fleet
  before: the same 120 vessels.
\<close>

theorem insertVessel_at_capacity:
  "length fleet = 120 \<Longrightarrow>
   insertVessel fleet csvLine = (Some CapacityExceeded, fleet)
   \<and> length (snd (insertVessel fleet csvLine)) = 120"
  by (simp add: insertVessel_def MAX_VESSELS_def)

theorem insertVessel_at_capacity_witness:
  "length (replicate 120 \<lparr>vesselName = ''Alpha'', lengthFt = Fin 20, locationCat = SLIP,
      locationInfo = SlipNo 5, outstandingFees = Fin 100\<rparr>) = 120
   \<and> insertVessel (replicate 120 \<lparr>vesselName = ''Alpha'', lengthFt = Fin 20, locationCat = SLIP,
      locationInfo = SlipNo 5, outstandingFees = Fin 100\<rparr>) ''beta,10,land,B,0.00''
     = (Some CapacityExceeded, replicate 120 \<lparr>vesselName = ''Alpha'', lengthFt = Fin 20,
      locationCat = SLIP, locationInfo = SlipNo 5, outstandingFees = Fin 100\<rparr>)"
  using insertVessel_at_capacity [of "replicate 120 \<lparr>vesselName = ''Alpha'', lengthFt = Fin 20,
      locationCat = SLIP, locationInfo = SlipNo 5, outstandingFees = Fin 100\<rparr>" "''beta,10,land,B,0.00''"]
  by simp

lemma locateVesselByName_first:
  assumes "idx < length fleet" "strcasecmp (vesselName (fleet ! idx)) s = 0"
    "\<forall>j<idx. strcasecmp (vesselName (fleet ! j)) s \<noteq> 0"
  shows "locateVesselByName fleet s = Some idx"
proof (cases "locate_loop 0 fleet s")
  case None
  from locate_loop_None [OF None] assms show ?thesis by auto
next
  case (Some k)
  from locate_loop_Some [OF Some] have k: "k < length fleet"
    "strcasecmp (vesselName (fleet ! k)) s = 0"
    "\<forall>j<k. strcasecmp (vesselName (fleet ! j)) s \<noteq> 0" by auto
  from k assms have "k = idx" by (meson linorder_neqE_nat)
  with Some show ?thesis by (simp add: locateVesselByName_def)
qed

lemma locateVesselByName_none:
  assumes "\<forall>v\<in>set fleet. strcasecmp (vesselName v) s \<noteq> 0"
  shows "locateVesselByName fleet s = None"
proof (cases "locate_loop 0 fleet s")
  case None
  then show ?thesis by (simp add: locateVesselByName_def)
next
  case (Some k)
  from locate_loop_Some [OF Some] assms show ?thesis by auto
qed

text \<open>
  Claim C8.  \<open>removeVessel\<close> with the name that was read: if no vessel of the fleet has
  that name (compared without regard to case) it reports that there is no such boat and
  the fleet is unchanged; if \<open>idx\<close> is the first position whose vessel has that name, the
  fleet afterwards is the fleet without the entry at \<open>idx\<close>: the entries before it are in
  place, the entries behind it have moved one position to the left, in the same order,
  and nothing is sorted again.
\<close>

theorem removeVessel_first_match:
  "((\<forall>v\<in>set fleet. strcasecmp (vesselName v) (strip_newline targetName) \<noteq> 0) \<longrightarrow>
      removeVessel fleet (Some targetName) = (Some NotFound, fleet))
   \<and> (\<forall>idx<length fleet.
        strcasecmp (vesselName (fleet ! idx)) (strip_newline targetName) = 0
        \<and> (\<forall>j<idx. strcasecmp (vesselName (fleet ! j)) (strip_newline targetName) \<noteq> 0) \<longrightarrow>
        removeVessel fleet (Some targetName)
          = (None, take idx fleet @ drop (Suc idx) fleet))"
  by (auto simp: removeVessel_def locateVesselByName_none locateVesselByName_first
      butlast_shift_left)


theorem removeVessel_first_match_witness:
  "removeVessel [slip_vessel ''Alpha'' 20 100, slip_vessel ''beta'' 10 0] (Some ''Gamma\<newline>'')
       = (Some NotFound, [slip_vessel ''Alpha'' 20 100, slip_vessel ''beta'' 10 0])
   \<and> (1::nat) < length [slip_vessel ''Alpha'' 20 100, slip_vessel ''beta'' 10 0, slip_vessel ''Beta'' 30 5]
   \<and> strcasecmp (vesselName ([slip_vessel ''Alpha'' 20 100, slip_vessel ''beta'' 10 0,
         slip_vessel ''Beta'' 30 5] ! 1)) (strip_newline ''BETA\<newline>'') = 0
   \<and> strcasecmp (vesselName ([slip_vessel ''Alpha'' 20 100, slip_vessel ''beta'' 10 0,
         slip_vessel ''Beta'' 30 5] ! 0)) (strip_newline ''BETA\<newline>'') \<noteq> 0
   \<and> removeVessel [slip_vessel ''Alpha'' 20 100, slip_vessel ''beta'' 10 0, slip_vessel ''Beta'' 30 5]
         (Some ''BETA\<newline>'')
       = (None, [slip_vessel ''Alpha'' 20 100, slip_vessel ''Beta'' 30 5])"
proof -
  have miss: "\<forall>v\<in>set [slip_vessel ''Alpha'' 20 100, slip_vessel ''beta'' 10 0].
       strcasecmp (vesselName v) (strip_newline ''Gamma\<newline>'') \<noteq> 0"
    by (simp add: slip_vessel_def strip_newline_def tolower_def)
  have hit: "strcasecmp (vesselName ([slip_vessel ''Alpha'' 20 100, slip_vessel ''beta'' 10 0,
         slip_vessel ''Beta'' 30 5] ! 1)) (strip_newline ''BETA\<newline>'') = 0
     \<and> (\<forall>j<1. strcasecmp (vesselName ([slip_vessel ''Alpha'' 20 100, slip_vessel ''beta'' 10 0,
         slip_vessel ''Beta'' 30 5] ! j)) (strip_newline ''BETA\<newline>'') \<noteq> 0)"
    by (simp add: slip_vessel_def strip_newline_def tolower_def)
  from miss hit
    removeVessel_first_match [of "[slip_vessel ''Alpha'' 20 100, slip_vessel ''beta'' 10 0]"
      "''Gamma\<newline>''"]
    removeVessel_first_match [of "[slip_vessel ''Alpha'' 20 100, slip_vessel ''beta'' 10 0,
      slip_vessel ''Beta'' 30 5]" "''BETA\<newline>''", THEN conjunct2, rule_format, of 1]
  show ?thesis by simp
qed

lemma flt_not_fge: "flt a b \<Longrightarrow> \<not> fge a b"
  by (cases a; cases b) simp_all

lemma cstring_strip_newline: "cstring (strip_newline buf)"
  by (auto simp: cstring_def strip_newline_def dest: set_takeWhileD)

lemma strtok_r_token_subset:
  "strtok_r s = Some (tok, rest) \<Longrightarrow> set tok \<subseteq> set s"
  by (auto simp: strtok_r_def Let_def split: if_splits dest!: set_takeWhileD set_dropWhileD)

lemma strtok_r_token_cstring:
  "cstring s \<Longrightarrow> strtok_r s = Some (tok, rest) \<Longrightarrow> cstring tok"
  using strtok_r_token_subset [of s tok rest] by (auto simp: cstring_def)











section \<open>Categories in upper case, empty name fields, fees with three decimals\<close>

text \<open>
  Claim C2, at the line \<open>X,10,SLIP,1,0\<close>.  \<open>loadData\<close> compares the category with
  \<open>strcmp\<close>: the line is dropped and the fleet stays empty, while the same line with
  \<open>slip\<close> in lower case is loaded.  \<open>insertVessel\<close> compares with \<open>strcasecmp\<close> and
  accepts the line as a vessel in a slip.
\<close>

theorem loadData_category_case_sensitive:
  "loadLine ''X,10,SLIP,1,0'' = None
   \<and> loadData (Some [''X,10,SLIP,1,0\<newline>'']) = []
   \<and> loadData (Some [''X,10,slip,1,0\<newline>'']) = [slip_vessel ''X'' 10 0]
   \<and> parse_insert ''X,10,SLIP,1,0'' = Inr (slip_vessel ''X'' 10 0)
   \<and> insertVessel [] ''X,10,SLIP,1,0'' = (None, [slip_vessel ''X'' 10 0])"
  by (simp add: loadData_def insertVessel_def qsort_def prog_eval fp_eval str_eval slip_vessel_def)

text \<open>
  Claim C7 fails at the line \<open>,Bob,10,slip,1,0\<close>, whose name field is empty:
  \<open>strtok_r\<close> skips the leading comma, so both \<open>insertVessel\<close> and \<open>loadData\<close> accept
  the line with the name Bob, taken from the second field.  With one field less, the
  line \<open>,10,slip,1,0\<close> is rejected, but as an unknown location.
\<close>

theorem empty_name_field_counterexample:
  "parse_insert '',Bob,10,slip,1,0'' = Inr (slip_vessel ''Bob'' 10 0)
   \<and> insertVessel [] '',Bob,10,slip,1,0'' = (None, [slip_vessel ''Bob'' 10 0])
   \<and> loadLine '',Bob,10,slip,1,0'' = Some (slip_vessel ''Bob'' 10 0)
   \<and> parse_insert '',10,slip,1,0'' = Inl UnknownLocationCategory"
  by (simp add: insertVessel_def qsort_def prog_eval fp_eval str_eval slip_vessel_def)

lemma strtok_r_skip_comma: "strtok_r (CHR '','' # s) = strtok_r s"
  by (simp add: strtok_r_def)

lemma strtok_r_all_commas: "\<forall>c\<in>set s. c = CHR '','' \<Longrightarrow> strtok_r s = None"
proof -
  assume "\<forall>c\<in>set s. c = CHR '',''"
  then have "dropWhile (\<lambda>c. c = CHR '','') s = []" by (simp add: dropWhile_eq_Nil_conv)
  then show ?thesis by (simp add: strtok_r_def)
qed

text \<open>
  Claim C7, amended.  A line with no token, that is the empty line or a line of commas
  only, is rejected as malformed where \<open>insertVessel\<close> parses it and dropped where
  \<open>loadData\<close> parses it.  An empty field in front is skipped: a line that starts with a
  comma is parsed as the line behind that comma is.
\<close>

theorem no_token_is_malformed:
  "((\<forall>c\<in>set line. c = CHR '','') \<longrightarrow>
      parse_insert line = Inl MalformedRecord \<and> loadLine line = None)
   \<and> parse_insert (CHR '','' # line) = parse_insert line
   \<and> loadLine (CHR '','' # line) = loadLine line"
  by (simp add: parse_insert_def loadLine_def strtok_r_skip_comma strtok_r_all_commas)

theorem no_token_is_malformed_witness:
  "parse_insert '',,,'' = Inl MalformedRecord \<and> loadLine '',,,'' = None
   \<and> parse_insert '''' = Inl MalformedRecord \<and> loadLine '''' = None
   \<and> parse_insert (CHR '','' # ''Bob,10,slip,1,0'') = parse_insert ''Bob,10,slip,1,0''"
  using no_token_is_malformed [of "'',,,''"] no_token_is_malformed [of "''''"]
    no_token_is_malformed [of "''Bob,10,slip,1,0''"]
  by simp


section \<open>Numbers at the limits of their types\<close>

text \<open>
  \<open>atoi\<close> keeps the low 32 bits of what \<open>strtol\<close> returns, and \<open>strtol\<close> stops at the
  bounds of \<open>long\<close>.
\<close>

lemma atoi_wraps:
  "atoi ''4294967297'' = 1 \<and> atoi ''2147483648'' = - 2147483648
   \<and> atoi ''99999999999999999999'' = - 1 \<and> atoi ''-99999999999999999999'' = 0
   \<and> atoi '' -12x'' = - 12"
  by (simp add: str_eval)

text \<open>The sign of a zero and of a NaN is read and written; a fee beyond 24 bits is rounded.\<close>

lemma signed_zero_and_nan_written:
  "fmt_f 2 (cast_float (atof ''-0'')) = ''-0.00''
   \<and> fmt_f 0 (cast_float (atof ''-0.4'')) = ''-0''
   \<and> fmt_f 2 (cast_float (atof ''-nan'')) = ''-nan''
   \<and> fmt_f 2 (cast_float (atof ''nan'')) = ''nan''
   \<and> fmt_f 2 (cast_float (atof ''-inf'')) = ''-inf''
   \<and> fmt_f 2 (cast_float (atof ''16777217'')) = ''16777216.00''"
  by (simp add: fp_eval str_eval)


section \<open>Rounding to float is monotone\<close>

lemma pow2_powr: "pow2 e = 2 powr (real_of_int e)"
proof (cases "0 \<le> e")
  case True
  then have "real_of_int e = real (nat e)" by simp
  then have "2 powr (real_of_int e) = 2 ^ nat e" by (simp only: powr_realpow zero_less_numeral)
  with True show ?thesis by (simp add: pow2_def)
next
  case False
  then have "real_of_int e = - real (nat (- e))" by simp
  then have "2 powr (real_of_int e) = 1 / 2 ^ nat (- e)"
    by (simp only: powr_minus powr_realpow zero_less_numeral inverse_eq_divide)
  with False show ?thesis by (simp add: pow2_def)
qed

lemma pow2_pos: "0 < pow2 e"
  by (simp add: pow2_powr)

lemma pow2_add: "pow2 (a + b) = pow2 a * pow2 b"
  by (simp add: pow2_powr powr_add)

lemma pow2_mono: "a \<le> b \<Longrightarrow> pow2 a \<le> pow2 b"
  by (simp add: pow2_powr)

lemma pow2_less_iff: "pow2 a < pow2 b \<longleftrightarrow> a < b"
  by (simp add: pow2_powr)

lemma pow2_nat: "0 \<le> e \<Longrightarrow> pow2 e = real_of_int (2 ^ nat e)"
  by (simp add: pow2_def)

lemma inv_lt: "0 < x \<Longrightarrow> 0 < p \<Longrightarrow> p < 1 / x \<Longrightarrow> x < 1 / (p :: real)"
  by (simp add: field_simps)

lemma inv_le: "0 < x \<Longrightarrow> 0 < p \<Longrightarrow> 1 / x \<le> p \<Longrightarrow> 1 / p \<le> (x :: real)"
  by (simp add: field_simps)

lemma ilog2_bounds:
  assumes "0 < x"
  shows "pow2 (ilog2 x) \<le> x \<and> x < pow2 (ilog2 x + 1)"
proof (cases "1 \<le> x")
  case True
  let ?a = "\<lfloor>x\<rfloor>"
  from True have a: "0 < ?a" by linarith
  from bitlen_bounds [OF a] have lo: "2 ^ nat (bitlen ?a - 1) \<le> ?a" and hi: "?a < 2 ^ nat (bitlen ?a)"
    by simp_all
  from a have b1: "1 \<le> bitlen ?a" by (simp add: bitlen_alt_def)
  have "pow2 (bitlen ?a - 1) = real_of_int (2 ^ nat (bitlen ?a - 1))" using b1 by (simp add: pow2_nat)
  also have "\<dots> \<le> real_of_int ?a" using lo by (simp only: of_int_le_iff)
  also have "\<dots> \<le> x" by linarith
  finally have l: "pow2 (bitlen ?a - 1) \<le> x" .
  from hi have "?a + 1 \<le> 2 ^ nat (bitlen ?a)" by simp
  then have "real_of_int (?a + 1) \<le> real_of_int (2 ^ nat (bitlen ?a))" by (simp only: of_int_le_iff)
  moreover have "x < real_of_int (?a + 1)" by linarith
  moreover have "pow2 (bitlen ?a) = real_of_int (2 ^ nat (bitlen ?a))" using b1 by (simp add: pow2_nat)
  ultimately have h: "x < pow2 (bitlen ?a)" by linarith
  from True l h show ?thesis by (simp add: ilog2_def)
next
  case False
  let ?y = "1 / x"
  let ?a = "\<lceil>?y\<rceil> - 1"
  from False assms have y1: "1 < ?y" by simp
  then have a: "0 < ?a" by linarith
  have ay: "real_of_int ?a < ?y" "?y \<le> real_of_int ?a + 1" by linarith+
  from bitlen_bounds [OF a] have lo: "2 ^ nat (bitlen ?a - 1) \<le> ?a" and hi: "?a < 2 ^ nat (bitlen ?a)"
    by simp_all
  from a have b1: "1 \<le> bitlen ?a" by (simp add: bitlen_alt_def)
  let ?m = "bitlen ?a"
  have "pow2 (?m - 1) = real_of_int (2 ^ nat (?m - 1))" using b1 by (simp add: pow2_nat)
  also have "\<dots> \<le> real_of_int ?a" using lo by (simp only: of_int_le_iff)
  also note ay(1)
  finally have ylo: "pow2 (?m - 1) < ?y" .
  from hi have "?a + 1 \<le> 2 ^ nat ?m" by simp
  then have le: "real_of_int (?a + 1) \<le> real_of_int (2 ^ nat ?m)" by (simp only: of_int_le_iff)
  have "?y \<le> real_of_int (?a + 1)" using ay(2) by simp
  also note le
  also have "real_of_int (2 ^ nat ?m) = pow2 ?m" using b1 by (simp add: pow2_nat)
  finally have yhi: "?y \<le> pow2 ?m" .
  have inv: "pow2 (- k) = 1 / pow2 k" for k
    by (simp add: pow2_powr powr_minus inverse_eq_divide)
  have "1 / pow2 ?m \<le> x" using yhi assms pow2_pos [of ?m] by (rule_tac inv_le) simp_all
  then have l: "pow2 (- ?m) \<le> x" by (simp only: inv)
  have "x < 1 / pow2 (?m - 1)" using ylo assms pow2_pos [of "?m - 1"] by (rule_tac inv_lt) simp_all
  moreover have "- ?m + 1 = - (?m - 1)" by simp
  then have "pow2 (- ?m + 1) = 1 / pow2 (?m - 1)" by (simp only: inv)
  ultimately have h: "x < pow2 (- ?m + 1)" by simp
  from False l h show ?thesis by (simp add: ilog2_def)
qed

lemma ilog2_mono:
  assumes "0 < x" "x \<le> y"
  shows "ilog2 x \<le> ilog2 y"
proof -
  from ilog2_bounds [OF assms(1)] have "pow2 (ilog2 x) \<le> x" by simp
  moreover from assms have "0 < y" by simp
  from ilog2_bounds [OF this] have "y < pow2 (ilog2 y + 1)" by simp
  ultimately have "pow2 (ilog2 x) < pow2 (ilog2 y + 1)" using assms(2) by linarith
  then show ?thesis by (simp add: pow2_less_iff)
qed

lemma rne_of_int: "rne (real_of_int n) = n"
  by (simp add: rne_def Let_def)

lemma rne_bounds: "\<lfloor>x\<rfloor> \<le> rne x \<and> rne x \<le> \<lfloor>x\<rfloor> + 1"
  by (simp add: rne_def Let_def)

lemma rne_mono:
  assumes "x \<le> y"
  shows "rne x \<le> rne y"
proof (cases "\<lfloor>x\<rfloor> = \<lfloor>y\<rfloor>")
  case True
  with assms have "x - real_of_int \<lfloor>x\<rfloor> \<le> y - real_of_int \<lfloor>y\<rfloor>" by simp
  with True show ?thesis by (auto simp: rne_def Let_def)
next
  case False
  with assms have "\<lfloor>x\<rfloor> < \<lfloor>y\<rfloor>" using floor_mono [OF assms] by linarith
  then have "\<lfloor>x\<rfloor> + 1 \<le> \<lfloor>y\<rfloor>" by simp
  with rne_bounds [of x] rne_bounds [of y] show ?thesis by linarith
qed

lemma rne_minus: "rne (- x) = - rne x"
proof (cases "x = real_of_int \<lfloor>x\<rfloor>")
  case True
  then have "rne x = \<lfloor>x\<rfloor>" using rne_of_int [of "\<lfloor>x\<rfloor>"] by simp
  moreover from True have "- x = real_of_int (- \<lfloor>x\<rfloor>)" by simp
  then have "rne (- x) = - \<lfloor>x\<rfloor>" using rne_of_int [of "- \<lfloor>x\<rfloor>"] by simp
  ultimately show ?thesis by simp
next
  case False
  then have f: "\<lfloor>- x\<rfloor> = - \<lfloor>x\<rfloor> - 1"
    by (simp add: floor_minus ceiling_altdef)
  have ev: "even (- \<lfloor>x\<rfloor> - 1) \<longleftrightarrow> \<not> even \<lfloor>x\<rfloor>" by simp
  from False have "real_of_int \<lfloor>x\<rfloor> < x" "x < real_of_int \<lfloor>x\<rfloor> + 1" by linarith+
  then show ?thesis unfolding rne_def Let_def f ev by (auto simp: field_simps)
qed


lemma rne_ge_int: "real_of_int n \<le> x \<Longrightarrow> n \<le> rne x"
  using rne_mono [of "real_of_int n" x] by (simp add: rne_of_int)

lemma rne_le_int: "x \<le> real_of_int n \<Longrightarrow> rne x \<le> n"
  using rne_mono [of x "real_of_int n"] by (simp add: rne_of_int)

lemma pow2_multiple:
  assumes "e \<le> k"
  shows "pow2 k = real_of_int (2 ^ nat (k - e)) * pow2 e"
proof -
  have "pow2 k = pow2 ((k - e) + e)" by simp
  also have "\<dots> = pow2 (k - e) * pow2 e" by (rule pow2_add)
  also have "pow2 (k - e) = real_of_int (2 ^ nat (k - e))" using assms by (simp add: pow2_nat)
  finally show ?thesis .
qed

text \<open>The value that \<open>round_fp\<close> computes before it tests for overflow.\<close>

lemma rounded_ge_pow2:
  assumes "e \<le> k" "pow2 k \<le> z"
  shows "pow2 k \<le> real_of_int (rne (z / pow2 e)) * pow2 e"
proof -
  let ?n = "2 ^ nat (k - e) :: int"
  from pow2_multiple [OF assms(1)] have k: "pow2 k = real_of_int ?n * pow2 e" .
  with assms(2) pow2_pos [of e] have "real_of_int ?n \<le> z / pow2 e"
    by (simp add: field_simps)
  then have "?n \<le> rne (z / pow2 e)" by (rule rne_ge_int)
  then have "real_of_int ?n \<le> real_of_int (rne (z / pow2 e))" by (simp only: of_int_le_iff)
  with pow2_pos [of e] have "real_of_int ?n * pow2 e \<le> real_of_int (rne (z / pow2 e)) * pow2 e"
    by (simp only: mult_le_cancel_right_pos)
  with k show ?thesis by simp
qed

lemma rounded_le_pow2:
  assumes "e \<le> k" "y \<le> pow2 k"
  shows "real_of_int (rne (y / pow2 e)) * pow2 e \<le> pow2 k"
proof -
  let ?n = "2 ^ nat (k - e) :: int"
  from pow2_multiple [OF assms(1)] have k: "pow2 k = real_of_int ?n * pow2 e" .
  with assms(2) pow2_pos [of e] have "y / pow2 e \<le> real_of_int ?n"
    by (simp add: field_simps)
  then have "rne (y / pow2 e) \<le> ?n" by (rule rne_le_int)
  then have "real_of_int (rne (y / pow2 e)) \<le> real_of_int ?n" by (simp only: of_int_le_iff)
  with pow2_pos [of e] have "real_of_int (rne (y / pow2 e)) * pow2 e \<le> real_of_int ?n * pow2 e"
    by (simp only: mult_le_cancel_right_pos)
  with k show ?thesis by simp
qed

lemma rounded_mono:
  assumes "0 < y" "y \<le> z" "1 \<le> p"
    and ey: "ey = max (ilog2 y - (int p - 1)) m"
    and ez: "ez = max (ilog2 z - (int p - 1)) m"
  shows "real_of_int (rne (y / pow2 ey)) * pow2 ey \<le> real_of_int (rne (z / pow2 ez)) * pow2 ez"
proof (cases "ey = ez")
  case True
  from assms(2) pow2_pos [of ez] have "y / pow2 ez \<le> z / pow2 ez"
    by (simp add: divide_right_mono)
  then have "rne (y / pow2 ez) \<le> rne (z / pow2 ez)" by (rule rne_mono)
  then have "real_of_int (rne (y / pow2 ez)) \<le> real_of_int (rne (z / pow2 ez))"
    by (simp only: of_int_le_iff)
  with pow2_pos [of ez] True show ?thesis by (simp only: mult_le_cancel_right_pos)
next
  case False
  from ilog2_mono [OF assms(1,2)] have il: "ilog2 y \<le> ilog2 z" .
  with ey ez False have lt: "ey < ez" by auto
  with ey ez have ezk: "ez = ilog2 z - (int p - 1)" and ylt: "ilog2 y < ilog2 z" by auto
  let ?k = "ilog2 z"
  from assms(1,2) have zpos: "0 < z" by simp
  from ilog2_bounds [OF zpos] have kz: "pow2 ?k \<le> z" by simp
  from ilog2_bounds [OF assms(1)] have "y < pow2 (ilog2 y + 1)" by simp
  also from ylt have "pow2 (ilog2 y + 1) \<le> pow2 ?k" by (intro pow2_mono) simp
  finally have yk: "y \<le> pow2 ?k" by simp
  from ezk assms(3) have ezle: "ez \<le> ?k" by simp
  with lt have eyle: "ey \<le> ?k" by simp
  from rounded_le_pow2 [OF eyle yk] rounded_ge_pow2 [OF ezle kz] show ?thesis by linarith
qed

lemma to_float_unfold:
  assumes "x \<noteq> 0"
  shows "to_float x =
     (if pow2 128 \<le> \<bar>real_of_int (rne (x / pow2 (max (ilog2 \<bar>x\<bar> - 23) (- 149))))
                        * pow2 (max (ilog2 \<bar>x\<bar> - 23) (- 149))\<bar>
      then (if 0 < x then PInf else NInf)
      else if real_of_int (rne (x / pow2 (max (ilog2 \<bar>x\<bar> - 23) (- 149))))
                * pow2 (max (ilog2 \<bar>x\<bar> - 23) (- 149)) = 0 \<and> x < 0
      then NegZero
      else Fin (real_of_int (rne (x / pow2 (max (ilog2 \<bar>x\<bar> - 23) (- 149))))
                * pow2 (max (ilog2 \<bar>x\<bar> - 23) (- 149))))"
proof -
  have c: "int 24 - 1 = 23" "2 - 127 - int 24 = - 149" "(127::int) + 1 = 128" by simp_all
  show ?thesis
    unfolding to_float_def round_fp_def Let_def c by (simp only: assms if_False)
qed

lemma to_float_0: "to_float 0 = Fin 0"
  by (simp add: to_float_def round_fp_def)

lemma to_float_not_below:
  assumes fy: "to_float y = Fin y" and yz: "y \<le> z"
  shows "\<not> flt (to_float z) (Fin y)"
proof -
  define E where "E x = max (ilog2 \<bar>x\<bar> - 23) (- 149)" for x :: real
  define R where "R x = real_of_int (rne (x / pow2 (E x))) * pow2 (E x)" for x :: real
  have unf: "to_float x = (if pow2 128 \<le> \<bar>R x\<bar> then (if 0 < x then PInf else NInf)
       else if R x = 0 \<and> x < 0 then NegZero else Fin (R x))"
    if "x \<noteq> 0" for x
    using to_float_unfold [OF that] by (simp only: R_def E_def)
  have Rneg: "R (- x) = - R x" for x
    by (simp add: R_def E_def rne_minus)
  have Rmono: "R a \<le> R b" if "0 < a" "a \<le> b" for a b
  proof -
    from that have "0 < b" by simp
    with that show ?thesis
      unfolding R_def
      by (intro rounded_mono [where p = 24 and m = "- 149"]) (simp_all add: E_def)
  qed
  have Rpos: "0 \<le> R a" if "0 < a" for a
  proof -
    from that pow2_pos [of "E a"] have "real_of_int 0 \<le> a / pow2 (E a)" by simp
    then have "0 \<le> rne (a / pow2 (E a))" by (rule rne_ge_int)
    with pow2_pos [of "E a"] show ?thesis by (simp add: R_def)
  qed
  have Ry: "R y = y \<and> \<bar>R y\<bar> < pow2 128" if "y \<noteq> 0"
    using fy unf [OF that] by (auto split: if_splits)
  consider "z = 0" | "0 < z" "y \<le> 0" | "0 < z" "0 < y" | "z < 0" by linarith
  then show ?thesis
  proof cases
    case 1
    with yz show ?thesis by (simp add: to_float_0)
  next
    case 2
    from Rpos [OF 2(1)] 2 show ?thesis by (simp add: unf)
  next
    case 3
    then have "y \<noteq> 0" by simp
    from Ry [OF this] have ry: "R y = y" by blast
    with Rmono [OF 3(2) yz] have "y \<le> R z" by linarith
    moreover from 3 have "z \<noteq> 0" by simp
    note unf [OF this]
    ultimately show ?thesis using 3(1) by (simp split: if_splits)
  next
    case 4
    with yz have y: "y < 0" by simp
    from 4 yz have "0 < - z" "- z \<le> - y" by simp_all
    from Rmono [OF this] have le: "R y \<le> R z" by (simp add: Rneg)
    from Rpos [of "- z"] 4 have "R z \<le> 0" by (simp add: Rneg)
    moreover from y have "y \<noteq> 0" by simp
    from Ry [OF this] have ry: "R y = y" and b: "\<bar>R y\<bar> < pow2 128" by blast+
    from b have "\<bar>y\<bar> < pow2 128" by (simp only: ry)
    ultimately have small: "\<bar>R z\<bar> < pow2 128" using le ry y by linarith
    from 4 have "z \<noteq> 0" by simp
    from unf [OF this] small
    have "to_float z = (if R z = 0 \<and> z < 0 then NegZero else Fin (R z))" by simp
    moreover from le ry have "y \<le> R z" by linarith
    ultimately show ?thesis using y by simp
  qed
qed


section \<open>Rounding is exact on the values of the format and close elsewhere\<close>












section \<open>Negative payments\<close>

text \<open>
  Claim C9 fails for the vessel with balance 16777216 and the amount -1: the payment is
  accepted, but the float difference of 16777216 and -1 is 16777216 again (16777217 is
  no float, and the tie goes to the even significand), so the balance does not grow.
\<close>

theorem negative_payment_counterexample:
  "locateVesselByName [slip_vessel ''Alpha'' 20 16777216] (strip_newline ''alpha\<newline>'') = Some 0
   \<and> cast_float (atof ''-1\<newline>'') = Fin (- 1)
   \<and> recordPayment [slip_vessel ''Alpha'' 20 16777216] (Some ''alpha\<newline>'') (Some ''-1\<newline>'')
       = (None, [slip_vessel ''Alpha'' 20 16777216])"
proof -
  have loc: "locateVesselByName [slip_vessel ''Alpha'' 20 16777216] (strip_newline ''alpha\<newline>'') = Some 0"
    by (simp add: locateVesselByName_def locate_loop.simps slip_vessel_def strip_newline_def tolower_def)
  have a: "cast_float (atof ''-1\<newline>'') = Fin (- 1)" by (simp add: fp_eval str_eval)
  have s: "float_sub (Fin 16777216) (Fin (- 1)) = Fin 16777216" by (simp add: fp_eval)
  show ?thesis
    by (simp add: recordPayment_def loc a) (simp add: s slip_vessel_def)
qed


text \<open>
  Claim C9, amended.  For the vessel that the name finds, with balance \<open>b\<close>, and every
  negative amount \<open>a\<close> below \<open>b\<close>, \<open>recordPayment\<close> accepts the payment and sets the
  balance to the float difference \<open>b - a\<close>: no sign or lower bound of the amount is
  checked.  The new balance is never below the old one (which is a value of type float),
  so a negative payment does not reduce what is owed; it need not be above it.
\<close>

theorem negative_payment_accepted:
  "locateVesselByName fleet (strip_newline inputName) = Some index \<Longrightarrow>
   flt (cast_float (atof buf)) (Fin 0) \<Longrightarrow>
   flt (cast_float (atof buf)) (outstandingFees (fleet ! index)) \<Longrightarrow>
   recordPayment fleet (Some inputName) (Some buf)
     = (None, fleet[index := (fleet ! index)
          \<lparr>outstandingFees :=
             float_sub (outstandingFees (fleet ! index)) (cast_float (atof buf))\<rparr>])
   \<and> (cast_float (outstandingFees (fleet ! index)) = outstandingFees (fleet ! index) \<longrightarrow>
        \<not> flt (float_sub (outstandingFees (fleet ! index)) (cast_float (atof buf)))
              (outstandingFees (fleet ! index)))"
proof -
  assume loc: "locateVesselByName fleet (strip_newline inputName) = Some index"
    and neg: "flt (cast_float (atof buf)) (Fin 0)"
    and less: "flt (cast_float (atof buf)) (outstandingFees (fleet ! index))"
  let ?a = "cast_float (atof buf)" and ?b = "outstandingFees (fleet ! index)"
  from loc less have accepted: "recordPayment fleet (Some inputName) (Some buf)
     = (None, fleet[index := (fleet ! index)\<lparr>outstandingFees := float_sub ?b ?a\<rparr>])"
    by (auto simp: recordPayment_def Let_def dest: flt_not_fge)
  have "\<not> flt (float_sub ?b ?a) ?b" if rep: "cast_float ?b = ?b"
  proof (cases ?b)
    case (Fin y)
    with rep have fy: "to_float y = Fin y" by simp
    show ?thesis
    proof (cases ?a)
      case (Fin x)
      with neg have x: "x < 0" by simp
      then have "y \<le> y + - x" by simp
      from to_float_not_below [OF fy this] Fin \<open>?b = Fin y\<close> x show ?thesis
        by (simp add: float_sub_def)
    next
      case NegZero
      with neg show ?thesis by simp
    next
      case PInf
      with neg show ?thesis by simp
    next
      case NInf
      with \<open>?b = Fin y\<close> show ?thesis by (simp add: float_sub_def)
    next
      case (NaN s)
      with neg show ?thesis by simp
    qed
  next
    case NegZero
    show ?thesis
    proof (cases ?a)
      case (Fin x)
      with neg have x: "x < 0" by simp
      have "to_float 0 = Fin 0" by (rule to_float_0)
      from to_float_not_below [OF this, of "- x"] x Fin NegZero show ?thesis
        by (cases "to_float (- x)") (simp_all add: float_sub_def)
    next
      case NegZero
      with neg show ?thesis by simp
    next
      case PInf
      with neg show ?thesis by simp
    next
      case NInf
      with \<open>?b = NegZero\<close> show ?thesis by (simp add: float_sub_def)
    next
      case (NaN s)
      with neg show ?thesis by simp
    qed
  next
    case PInf
    then show ?thesis by (cases ?a) (simp_all add: float_sub_def)
  next
    case NInf
    with less show ?thesis by (cases ?a) simp_all
  next
    case (NaN s)
    with less show ?thesis by (cases ?a) simp_all
  qed
  with accepted show ?thesis by blast
qed

lemma locate_alpha:
  "locateVesselByName [slip_vessel ''Alpha'' 20 100] (strip_newline ''alpha\<newline>'') = Some 0"
  by (rule locateVesselByName_first) (simp_all add: slip_vessel_def strip_newline_def tolower_def)

lemma atof_minus_25: "cast_float (atof ''-25\<newline>'') = Fin (- 25)"
  by (simp add: fp_eval str_eval)

theorem negative_payment_accepted_witness:
  "locateVesselByName [slip_vessel ''Alpha'' 20 100] (strip_newline ''alpha\<newline>'') = Some 0
   \<and> flt (cast_float (atof ''-25\<newline>'')) (Fin 0)
   \<and> flt (cast_float (atof ''-25\<newline>'')) (outstandingFees ([slip_vessel ''Alpha'' 20 100] ! 0))
   \<and> cast_float (outstandingFees ([slip_vessel ''Alpha'' 20 100] ! 0))
       = outstandingFees ([slip_vessel ''Alpha'' 20 100] ! 0)
   \<and> recordPayment [slip_vessel ''Alpha'' 20 100] (Some ''alpha\<newline>'') (Some ''-25\<newline>'')
       = (None, [slip_vessel ''Alpha'' 20 125])
   \<and> \<not> flt (float_sub (outstandingFees ([slip_vessel ''Alpha'' 20 100] ! 0))
              (cast_float (atof ''-25\<newline>'')))
            (outstandingFees ([slip_vessel ''Alpha'' 20 100] ! 0))"
proof -
  have neg: "flt (cast_float (atof ''-25\<newline>'')) (Fin 0)" by (simp add: atof_minus_25)
  have less: "flt (cast_float (atof ''-25\<newline>'')) (outstandingFees ([slip_vessel ''Alpha'' 20 100] ! 0))"
    by (simp add: atof_minus_25 slip_vessel_def)
  have rep: "cast_float (outstandingFees ([slip_vessel ''Alpha'' 20 100] ! 0))
       = outstandingFees ([slip_vessel ''Alpha'' 20 100] ! 0)"
    by (simp add: slip_vessel_def fp_eval)
  have sub: "float_sub (Fin 100) (Fin (- 25)) = Fin 125" by (simp add: fp_eval)
  from negative_payment_accepted [OF locate_alpha neg less] locate_alpha neg less rep
  show ?thesis by (simp add: atof_minus_25 slip_vessel_def sub)
qed


section \<open>The balance after a payment\<close>











section \<open>The monthly charge\<close>














section \<open>The written line read again\<close>






























lemma takeWhile_all: "\<forall>c\<in>set xs. P c \<Longrightarrow> takeWhile P xs = xs"
  by (induction xs) simp_all

lemma dropWhile_all: "\<forall>c\<in>set xs. P c \<Longrightarrow> dropWhile P xs = []"
  by (induction xs) simp_all













section \<open>Names of more than 127 characters\<close>


















end
